theory Spec2Isabelle
  imports Complex_Main
begin

section \<open>The chat client: \<^verbatim>\<open>src/aig/patches/llm.py\<close>\<close>

subsection \<open>The streaming transport\<close>

text \<open>
  The transport (the OpenAI client) is external. One streaming request either raises
  when it is created, or delivers a finite sequence of chunks and then closes, normally
  or with an error raised while the stream is read. A chunk is the nested object that
  \<^verbatim>\<open>chat_stream\<close> inspects: \<^verbatim>\<open>chunk.choices[0].delta.content\<close>, every level of
  which may be absent. \<open>choices = None\<close> stands for a missing attribute or a value that
  is not a list.
\<close>

datatype delta = Delta (content: "string option")

datatype choice = Choice (delta: "delta option")

datatype chunk = Chunk (choices: "choice list option")

datatype transport_error = APIConnectionError | APITimeoutError | APIStatusError nat

datatype response =
    CreateRaises transport_error
  | Stream "chunk list" "transport_error option"

text \<open>
  The behaviour of the transport over one call of \<^verbatim>\<open>chat\<close>: the answer to the first,
  second, ... streaming request.
\<close>

type_synonym transport = "nat \<Rightarrow> response"

text \<open>A transport that answers from a finite script and with an empty stream afterwards.\<close>

definition scripted :: "response list \<Rightarrow> transport" where
  "scripted rs n = (if n < length rs then rs ! n else Stream [] None)"

definition text_chunk :: "string \<Rightarrow> chunk" where
  "text_chunk s = Chunk (Some [Choice (Some (Delta (Some s)))])"

subsection \<open>\<^verbatim>\<open>LLM.chat_stream\<close>\<close>

text \<open>
  Lines 50 to 57: the value of \<^verbatim>\<open>content\<close> reached for one chunk, \<open>None\<close> where the
  loop body hits a \<^verbatim>\<open>continue\<close> or \<^verbatim>\<open>getattr\<close> falls back to \<^verbatim>\<open>None\<close>.
\<close>

fun chunk_content :: "chunk \<Rightarrow> string option" where
  "chunk_content (Chunk None) = None"
| "chunk_content (Chunk (Some [])) = None"
| "chunk_content (Chunk (Some (Choice None # _))) = None"
| "chunk_content (Chunk (Some (Choice (Some d) # _))) = content d"

text \<open>
  The \<^verbatim>\<open>for chunk in response\<close> loop: the strings the generator yields. Line 58,
  \<^verbatim>\<open>if content\<close>, drops the empty string as well as \<^verbatim>\<open>None\<close>.
\<close>

fun stream_chunks :: "chunk list \<Rightarrow> string list" where
  "stream_chunks [] = []"
| "stream_chunks (c # cs) =
     (case chunk_content c of
        None \<Rightarrow> stream_chunks cs
      | Some s \<Rightarrow> if s \<noteq> [] then s # stream_chunks cs else stream_chunks cs)"

text \<open>
  The generator as a whole: the words it yields, and the error, if any, that it raises
  after them. The source has no \<^verbatim>\<open>try\<close>, so an error of the request leaves the
  generator as an exception.
\<close>

fun chat_stream :: "response \<Rightarrow> string list \<times> transport_error option" where
  "chat_stream (CreateRaises e) = ([], Some e)"
| "chat_stream (Stream chunks closing) = (stream_chunks chunks, closing)"

subsection \<open>\<^verbatim>\<open>LLM.chat\<close>\<close>

text \<open>
  The effects of \<^verbatim>\<open>chat\<close> are recorded in a trace: a streaming request, the two
  \<^verbatim>\<open>logger.error\<close> calls (the retry message carries the counter), \<^verbatim>\<open>time.sleep\<close>
  with its duration, and \<^verbatim>\<open>print\<close>.
\<close>

datatype event = Request | LogRetry nat | Sleep rat | LogExhausted | Print string

text \<open>The loop is left by \<^verbatim>\<open>break\<close> (line 30) or by the \<^verbatim>\<open>return\<close> of line 37.\<close>

datatype loop_exit = Break string | Return string

definition failure_message :: string where
  "failure_message =
     ''LLM connection failed after 5 retries. Model output is empty. Please wait 1 minute and try again.''"

text \<open>
  The \<^verbatim>\<open>while True\<close> loop of lines 26 to 37, with its variables \<^verbatim>\<open>ret\<close> and
  \<^verbatim>\<open>retry\<close>, the number \<open>n\<close> of requests made so far and the trace. The inner
  \<^verbatim>\<open>for\<close> loop appends every word to \<^verbatim>\<open>ret\<close>; an exception of the generator
  leaves \<^verbatim>\<open>chat\<close> at once. The loop ends because \<^verbatim>\<open>retry\<close> grows up to 6.
\<close>

function chat_loop :: "transport \<Rightarrow> nat \<Rightarrow> string \<Rightarrow> nat \<Rightarrow> event list
    \<Rightarrow> (transport_error + loop_exit) \<times> event list" where
  "chat_loop t n ret retry tr =
     (case chat_stream (t n) of
        (words, Some e) \<Rightarrow> (Inl e, tr @ [Request])
      | (words, None) \<Rightarrow>
          if foldl (@) ret words \<noteq> [] then (Inr (Break (foldl (@) ret words)), tr @ [Request])
          else if retry + 1 > 5
            then (Inr (Return failure_message),
                  tr @ [Request, LogRetry (retry + 1), Sleep (13 / 10), LogExhausted])
            else chat_loop t (n + 1) (foldl (@) ret words) (retry + 1)
                   (tr @ [Request, LogRetry (retry + 1), Sleep (13 / 10)]))"
  by pat_completeness auto
termination
  by (relation "measure (\<lambda>(t, n, ret, retry, tr). 6 - retry)") auto

declare chat_loop.simps [simp del]

text \<open>\<^verbatim>\<open>chat(message, p)\<close>: the value returned or the exception raised, and the trace.\<close>

definition chat :: "transport \<Rightarrow> bool \<Rightarrow> (transport_error + string) \<times> event list" where
  "chat t p =
     (case chat_loop t 0 [] 0 [] of
        (Inl e, tr) \<Rightarrow> (Inl e, tr)
      | (Inr (Return s), tr) \<Rightarrow> (Inr s, tr)
      | (Inr (Break ret), tr) \<Rightarrow> (Inr ret, if p then tr @ [Print ret] else tr))"

section \<open>The Markdown converter: \<^verbatim>\<open>src/scripts/convert_guides_to_docx.py\<close>\<close>

subsection \<open>Python strings\<close>

text \<open>
  A Python \<^verbatim>\<open>str\<close> is modelled as a \<open>string\<close>, one \<open>char\<close> for each code point;
  the model covers the code points below 256. There, \<^verbatim>\<open>str.isspace\<close> (the characters
  that \<^verbatim>\<open>strip\<close> and \<^verbatim>\<open>rstrip\<close> remove) holds of the twelve characters below, and
  the decimal digits that \<^verbatim>\<open>\d\<close> matches are \<open>0\<close> to \<open>9\<close>.
\<close>

definition isspace :: "char \<Rightarrow> bool" where
  "isspace c = (of_char c \<in> {9, 10, 11, 12, 13, 28, 29, 30, 31, 32, 133, 160 :: nat})"

definition isdigit :: "char \<Rightarrow> bool" where
  "isdigit c = (48 \<le> (of_char c :: nat) \<and> (of_char c :: nat) \<le> 57)"

definition lstrip :: "string \<Rightarrow> string" where
  "lstrip s = dropWhile isspace s"

definition rstrip :: "string \<Rightarrow> string" where
  "rstrip s = rev (dropWhile isspace (rev s))"

definition strip :: "string \<Rightarrow> string" where
  "strip s = lstrip (rstrip s)"

definition startswith :: "string \<Rightarrow> string \<Rightarrow> bool" where
  "startswith s p = (take (length p) s = p)"

definition endswith :: "string \<Rightarrow> string \<Rightarrow> bool" where
  "endswith s p = (length p \<le> length s \<and> drop (length s - length p) s = p)"

text \<open>
  \<^verbatim>\<open>s.replace(old, new)\<close>: every occurrence of \<open>old\<close>, found from the left without
  overlap, is replaced. (With an empty \<open>old\<close>, \<open>new\<close> is put before every character and
  at the end.)
\<close>

function replace :: "string \<Rightarrow> string \<Rightarrow> string \<Rightarrow> string" where
  "replace [] old new = (if old = [] then new else [])"
| "replace (c # cs) old new =
     (if old = [] then new @ c # replace cs old new
      else if startswith (c # cs) old then new @ replace (drop (length old) (c # cs)) old new
      else c # replace cs old new)"
  by pat_completeness auto
termination
  by (relation "measure (\<lambda>(s, old, new). length s)") auto

text \<open>
  \<^verbatim>\<open>s.split(sep, 1)\<close> for a non-empty separator: the parts before and after the first
  occurrence of \<open>sep\<close>, or \<open>s\<close> alone when there is none.
\<close>

fun split_1 :: "string \<Rightarrow> string \<Rightarrow> string list" where
  "split_1 [] sep = [[]]"
| "split_1 (c # cs) sep =
     (if startswith (c # cs) sep then [[], drop (length sep) (c # cs)]
      else (case split_1 cs sep of [] \<Rightarrow> [] | a # rest \<Rightarrow> (c # a) # rest))"


text \<open>
  \<^verbatim>\<open>re.match(r"^\d+\. ", s)\<close>, as a truth value: one or more digits, then a full stop
  and a space. The digits cannot match the full stop, so the greedy run of digits
  decides the match.
\<close>

definition re_match_numbered :: "string \<Rightarrow> bool" where
  "re_match_numbered s =
     (takeWhile isdigit s \<noteq> [] \<and> startswith (dropWhile isdigit s) ''. '')"

text \<open>
  \<^verbatim>\<open>os.path.join(a, b)\<close> on a POSIX system: an absolute \<open>b\<close> replaces \<open>a\<close>, and the
  separator is added unless \<open>a\<close> is empty or ends with it.
\<close>

definition join :: "string \<Rightarrow> string \<Rightarrow> string" where
  "join a b =
     (if startswith b ''/'' then b
      else if a = [] \<or> endswith a ''/'' then a @ b
      else a @ ''/'' @ b)"

subsection \<open>The document library\<close>

text \<open>
  Of python-docx the script uses \<^verbatim>\<open>Document()\<close>, \<^verbatim>\<open>add_paragraph\<close>,
  \<^verbatim>\<open>add_heading\<close>, the style of a paragraph, its list of runs and the font of a run.
  A document is the list of its paragraphs (type \<open>par\<close>). A paragraph created without
  a style has the default style \<^verbatim>\<open>Normal\<close>. Font sizes are in points.
\<close>

datatype style = Normal | Title | Heading nat | List_Bullet | List_Number | No_Spacing

record run =
  run_text :: string
  font_name :: "string option"
  font_size :: "nat option"

record par =
  style :: style
  runs :: "run list"

type_synonym document = "par list"

datatype error = IndexError | ValueError

text \<open>
  The library stores the text of a run as XML. It turns a tab, a line feed and a
  carriage return into elements of their own; of the other characters, XML refuses the
  control characters below code point 32, and the library then raises
  \<^verbatim>\<open>ValueError\<close>.
\<close>

definition xml_char :: "char \<Rightarrow> bool" where
  "xml_char c = (32 \<le> (of_char c :: nat) \<or> (of_char c :: nat) \<in> {9, 10, 13})"

text \<open>
  \<^verbatim>\<open>add_paragraph(text, style)\<close> creates a paragraph with one run that holds the text,
  and with no run when the text is empty (the library adds the run under
  \<^verbatim>\<open>if text:\<close>); it raises when the run refuses the text. \<^verbatim>\<open>add_heading(text, level)\<close>
  checks that the level is at most 9 and is \<^verbatim>\<open>add_paragraph\<close> with the style
  \<^verbatim>\<open>Heading level\<close>, or \<^verbatim>\<open>Title\<close> for level 0.
\<close>

definition add_paragraph :: "string \<Rightarrow> style \<Rightarrow> error + par" where
  "add_paragraph text st =
     (if text = [] then Inr \<lparr>style = st, runs = []\<rparr>
      else if \<forall>c\<in>set text. xml_char c
        then Inr \<lparr>style = st, runs = [\<lparr>run_text = text, font_name = None, font_size = None\<rparr>]\<rparr>
        else Inl ValueError)"

definition add_heading :: "string \<Rightarrow> nat \<Rightarrow> error + par" where
  "add_heading text level =
     (if 9 < level then Inl ValueError
      else add_paragraph text (if level = 0 then Title else Heading level))"

text \<open>Python's \<^verbatim>\<open>xs[i]\<close> for \<open>i \<ge> 0\<close>, which raises when \<open>i\<close> is out of range.\<close>

definition index :: "'a list \<Rightarrow> nat \<Rightarrow> error + 'a" where
  "index xs i = (if i < length xs then Inr (xs ! i) else Inl IndexError)"

subsection \<open>\<^verbatim>\<open>convert_markdown_to_docx\<close>\<close>

text \<open>
  A call \<^verbatim>\<open>doc.add_paragraph(...)\<close> or \<^verbatim>\<open>doc.add_heading(...)\<close> as a statement of
  the loop body: the exception, or the state with the new paragraph at the end of the
  document.
\<close>

definition appended :: "bool \<Rightarrow> document \<Rightarrow> error + par \<Rightarrow> error + bool \<times> document" where
  "appended in_code_block doc created =
     (case created of Inl e \<Rightarrow> Inl e | Inr p \<Rightarrow> Inr (in_code_block, doc @ [p]))"

text \<open>
  The body of the loop over the lines (lines 22 to 58), on the state that the loop
  changes: the flag \<^verbatim>\<open>in_code_block\<close> and the document. \<open>raw\<close> is the line as
  \<^verbatim>\<open>readlines\<close> returns it, with its line end. In a code block the paragraph is
  created, gets its style, and then \<^verbatim>\<open>p.runs[0]\<close> is read (line 32).
\<close>

definition process_line :: "bool \<Rightarrow> document \<Rightarrow> string \<Rightarrow> error + bool \<times> document" where
  "process_line in_code_block doc raw =
     (let line = rstrip raw in
      if startswith line ''```'' then Inr (\<not> in_code_block, doc)
      else if in_code_block then
        (case add_paragraph line Normal of
           Inl e \<Rightarrow> Inl e
         | Inr created \<Rightarrow>
             (let p = created\<lparr>style := No_Spacing\<rparr> in
              case index (runs p) 0 of
                Inl e \<Rightarrow> Inl e
              | Inr r \<Rightarrow>
                  Inr (in_code_block,
                       doc @ [p\<lparr>runs := (runs p)[0 := r\<lparr>font_name := Some ''Courier New'',
                                                        font_size := Some 10\<rparr>]\<rparr>])))
      else if startswith line ''# '' then appended in_code_block doc (add_heading (drop 2 line) 1)
      else if startswith line ''## '' then appended in_code_block doc (add_heading (drop 3 line) 2)
      else if startswith line ''### '' then appended in_code_block doc (add_heading (drop 4 line) 3)
      else if startswith line ''#### '' then appended in_code_block doc (add_heading (drop 5 line) 4)
      else if startswith (strip line) ''- '' \<or> startswith (strip line) ''* '' then
        appended in_code_block doc (add_paragraph (drop 2 (strip line)) List_Bullet)
      else if re_match_numbered (strip line) then
        (case index (split_1 (strip line) ''. '') 1 of
           Inl e \<Rightarrow> Inl e
         | Inr item \<Rightarrow> appended in_code_block doc (add_paragraph item List_Number))
      else if strip line = [] then Inr (in_code_block, doc)
      else appended in_code_block doc (add_paragraph line Normal))"

text \<open>The loop \<^verbatim>\<open>for line in lines\<close>; an exception ends it.\<close>

fun line_loop :: "bool \<Rightarrow> document \<Rightarrow> string list \<Rightarrow> error + bool \<times> document" where
  "line_loop in_code_block doc [] = Inr (in_code_block, doc)"
| "line_loop in_code_block doc (raw # rest) =
     (case process_line in_code_block doc raw of
        Inl e \<Rightarrow> Inl e
      | Inr (in_code_block', doc') \<Rightarrow> line_loop in_code_block' doc' rest)"

text \<open>
  The file system is external: a directory is given as the list that \<^verbatim>\<open>os.listdir\<close>
  returns, each name with the lines that \<^verbatim>\<open>readlines\<close> returns for that file. The
  effects of the script are its \<^verbatim>\<open>print\<close> calls and the documents it saves.
\<close>

datatype effect = PrintLine string | Save string document

text \<open>
  The loop over the directory entries (lines 7 to 61). \<^verbatim>\<open>in_code_block\<close> is a
  variable of the function, so its value survives from one file to the next; it is
  unbound (\<open>None\<close>) before the first Markdown file and assigned on line 19. The
  result is the exception that ended the run, if any, and the effects so far.
\<close>

fun file_loop :: "string \<Rightarrow> (string \<times> string list) list \<Rightarrow> bool option \<Rightarrow> effect list
    \<Rightarrow> error option \<times> effect list" where
  "file_loop source_dir [] in_code_block out = (None, out)"
| "file_loop source_dir ((filename, lines) # entries) in_code_block out =
     (if endswith filename ''.md'' then
        (let docx_path = join source_dir (replace filename ''.md'' ''.docx'');
             out = out @ [PrintLine (''Converting '' @ filename @ '' to DOCX...'')]
         in case line_loop False [] lines of
              Inl e \<Rightarrow> (Some e, out)
            | Inr (in_code_block', doc) \<Rightarrow>
                file_loop source_dir entries (Some in_code_block')
                  (out @ [Save docx_path doc, PrintLine (''Saved '' @ docx_path)]))
      else file_loop source_dir entries in_code_block out)"

definition convert_markdown_to_docx :: "string \<Rightarrow> (string \<times> string list) list
    \<Rightarrow> error option \<times> effect list" where
  "convert_markdown_to_docx source_dir listing = file_loop source_dir listing None []"

text \<open>The documents that a run saved, in the order of saving.\<close>

fun documents :: "effect list \<Rightarrow> document list" where
  "documents [] = []"
| "documents (Save path doc # es) = doc # documents es"
| "documents (PrintLine s # es) = documents es"

subsection \<open>Vocabulary of the specification\<close>

text \<open>
  A paragraph that holds a text in one run with the default font, and the paragraph of
  a code line: one run in Courier New at 10 points, in the style without spacing.
\<close>

abbreviation text_par :: "style \<Rightarrow> string \<Rightarrow> par" where
  "text_par st t \<equiv> \<lparr>style = st, runs = [\<lparr>run_text = t, font_name = None, font_size = None\<rparr>]\<rparr>"

abbreviation code_par :: "string \<Rightarrow> par" where
  "code_par t \<equiv>
     \<lparr>style = No_Spacing,
      runs = [\<lparr>run_text = t, font_name = Some ''Courier New'', font_size = Some 10\<rparr>]\<rparr>"

text \<open>
  The outcome of a run that ends normally after it converted one file, \<open>filename\<close> in
  \<open>source_dir\<close>, to the document \<open>doc\<close>.
\<close>

abbreviation converted :: "string \<Rightarrow> string \<Rightarrow> document \<Rightarrow> error option \<times> effect list" where
  "converted source_dir filename doc \<equiv>
     (None,
      [PrintLine (''Converting '' @ filename @ '' to DOCX...''),
       Save (join source_dir (replace filename ''.md'' ''.docx'')) doc,
       PrintLine (''Saved '' @ join source_dir (replace filename ''.md'' ''.docx''))])"

text \<open>
  The fence as the specification words it: a line that consists of three or more
  backticks (character \<open>0x60\<close>) and of nothing else.
\<close>

definition backticks_only :: "string \<Rightarrow> bool" where
  "backticks_only line = (3 \<le> length line \<and> line = replicate (length line) (CHR 0x60))"

section \<open>Properties of the chat client\<close>

subsection \<open>The generator and one turn of the loop\<close>

lemma foldl_append_concat: "foldl (@) acc ws = acc @ concat ws"
  by (induction ws arbitrary: acc) simp_all

lemma stream_chunks_filter:
  "stream_chunks cs = filter (\<lambda>s. s \<noteq> []) (List.map_filter chunk_content cs)"
  by (induction cs) (simp_all add: map_filter_simps split: option.splits)

lemma stream_chunks_nonempty: "[] \<notin> set (stream_chunks cs)"
  by (simp add: stream_chunks_filter)

lemma concat_stream_chunks_Nil: "concat (stream_chunks cs) = [] \<longleftrightarrow> stream_chunks cs = []"
  using stream_chunks_nonempty [of cs] by (cases "stream_chunks cs") auto

lemma stream_chunks_Nil:
  "stream_chunks cs = [] \<longleftrightarrow> (\<forall>c\<in>set cs. chunk_content c = None \<or> chunk_content c = Some [])"
  by (induction cs) (auto split: option.splits)

lemma chat_loop_raise:
  "chat_stream (t n) = (ws, Some e) \<Longrightarrow> chat_loop t n ret retry tr = (Inl e, tr @ [Request])"
  by (subst chat_loop.simps) simp

lemma chat_loop_break:
  "chat_stream (t n) = (ws, None) \<Longrightarrow> ret @ concat ws \<noteq> [] \<Longrightarrow>
   chat_loop t n ret retry tr = (Inr (Break (ret @ concat ws)), tr @ [Request])"
  by (subst chat_loop.simps) (simp add: foldl_append_concat)

lemma chat_loop_retry:
  assumes "chat_stream (t n) = (ws, None)" and "ret @ concat ws = []" and "retry < 5"
  shows "chat_loop t n ret retry tr =
     chat_loop t (Suc n) [] (Suc retry) (tr @ [Request, LogRetry (Suc retry), Sleep (13 / 10)])"
proof -
  have "foldl (@) ret ws = []"
    using assms(2) by (simp only: foldl_append_concat)
  then show ?thesis
    using assms(1,3) by (subst chat_loop.simps) simp
qed

lemma chat_loop_exhaust:
  assumes "chat_stream (t n) = (ws, None)" and "ret @ concat ws = []" and "5 \<le> retry"
  shows "chat_loop t n ret retry tr =
     (Inr (Return failure_message),
      tr @ [Request, LogRetry (Suc retry), Sleep (13 / 10), LogExhausted])"
proof -
  have "foldl (@) ret ws = []"
    using assms(2) by (simp only: foldl_append_concat)
  then show ?thesis
    using assms(1,3) by (subst chat_loop.simps) simp
qed

subsection \<open>A first attempt with content\<close>

text \<open>
  A stream that delivers content and then fails: the transport has yielded two non-empty
  fragments, and \<^verbatim>\<open>chat\<close> raises instead of returning their concatenation.
\<close>

theorem chat_raises_after_partial_content:
  "stream_chunks [text_chunk ''par'', text_chunk ''tial''] = [''par'', ''tial''] \<and>
   chat (scripted [Stream [text_chunk ''par'', text_chunk ''tial''] (Some APIConnectionError)]) False =
     (Inl APIConnectionError, [Request])"
proof -
  have "chat_loop (scripted [Stream [text_chunk ''par'', text_chunk ''tial''] (Some APIConnectionError)])
      0 [] 0 [] = (Inl APIConnectionError, [] @ [Request])"
    by (rule chat_loop_raise [where ws = "[''par'', ''tial'']"])
      (simp add: scripted_def text_chunk_def)
  then have "chat (scripted [Stream [text_chunk ''par'', text_chunk ''tial''] (Some APIConnectionError)])
      False = (Inl APIConnectionError, [Request])"
    by (simp add: chat_def)
  moreover have "stream_chunks [text_chunk ''par'', text_chunk ''tial''] = [''par'', ''tial'']"
    by (simp add: text_chunk_def)
  ultimately show ?thesis
    by simp
qed

text \<open>
  Claim C1, as the code has it. When the first streaming request closes without an error
  and at least one of its chunks carries a non-empty text, \<^verbatim>\<open>chat\<close> returns the
  concatenation of the non-empty texts in the order of arrival. The trace holds the one
  request (and the \<^verbatim>\<open>print\<close> when \<open>p\<close> is set): no sleep, no log entry, no second
  request.
\<close>

theorem chat_returns_concatenation:
  assumes "t 0 = Stream chunks None"
    and "\<exists>c\<in>set chunks. \<exists>s. chunk_content c = Some s \<and> s \<noteq> []"
  shows "chat t p =
     (Inr (concat (filter (\<lambda>s. s \<noteq> []) (List.map_filter chunk_content chunks))),
      Request # (if p then [Print (concat (filter (\<lambda>s. s \<noteq> [])
                                     (List.map_filter chunk_content chunks)))] else []))"
proof -
  have cs: "chat_stream (t 0) = (stream_chunks chunks, None)"
    using assms(1) by simp
  have "stream_chunks chunks \<noteq> []"
    using assms(2) by (auto simp: stream_chunks_Nil)
  then have "concat (stream_chunks chunks) \<noteq> []"
    using concat_stream_chunks_Nil by blast
  then have ne: "[] @ concat (stream_chunks chunks) \<noteq> []"
    by simp
  have "chat_loop t 0 [] 0 [] = (Inr (Break (concat (stream_chunks chunks))), [Request])"
    using chat_loop_break [where t = t and n = 0 and ret = "[]" and tr = "[]", OF cs] ne by simp
  then show ?thesis
    by (simp add: chat_def stream_chunks_filter)
qed


theorem chat_returns_concatenation_witness:
  "chat (scripted [Stream [text_chunk ''Hel'', Chunk None, text_chunk [], text_chunk ''lo''] None]) True
     = (Inr ''Hello'', [Request, Print ''Hello''])"
  using chat_returns_concatenation
    [of "scripted [Stream [text_chunk ''Hel'', Chunk None, text_chunk [], text_chunk ''lo''] None]"
        "[text_chunk ''Hel'', Chunk None, text_chunk [], text_chunk ''lo'']" True]
  by (simp add: scripted_def text_chunk_def map_filter_simps)

subsection \<open>Attempts without content\<close>

lemma chat_loop_empty_run:
  assumes "\<forall>j. n \<le> j \<and> j < n + m \<longrightarrow> chat_stream (t j) = ([], None)" and "r + m \<le> 5"
  shows "chat_loop t n [] r tr =
     chat_loop t (n + m) [] (r + m)
       (tr @ concat (map (\<lambda>j. [Request, LogRetry (Suc j), Sleep (13 / 10)]) [r..<r + m]))"
  using assms
proof (induction m arbitrary: n r tr)
  case 0
  then show ?case by simp
next
  case (Suc m)
  have first: "chat_stream (t n) = ([], None)"
    using Suc.prems(1) by simp
  have rest: "\<forall>j. Suc n \<le> j \<and> j < Suc n + m \<longrightarrow> chat_stream (t j) = ([], None)"
    using Suc.prems(1) by simp
  have "chat_loop t n [] r tr =
      chat_loop t (Suc n) [] (Suc r) (tr @ [Request, LogRetry (Suc r), Sleep (13 / 10)])"
    using chat_loop_retry [where t = t and n = n and ws = "[]" and ret = "[]", OF first]
      Suc.prems(2) by simp
  also have "\<dots> = chat_loop t (Suc n + m) [] (Suc r + m)
      ((tr @ [Request, LogRetry (Suc r), Sleep (13 / 10)]) @
        concat (map (\<lambda>j. [Request, LogRetry (Suc j), Sleep (13 / 10)]) [Suc r..<Suc r + m]))"
    using Suc.IH [OF rest] Suc.prems(2) by simp
  finally have step: "chat_loop t n [] r tr = chat_loop t (Suc n + m) [] (Suc r + m)
      ((tr @ [Request, LogRetry (Suc r), Sleep (13 / 10)]) @
        concat (map (\<lambda>j. [Request, LogRetry (Suc j), Sleep (13 / 10)]) [Suc r..<Suc r + m]))" .
  have range_eq: "[r..<Suc (r + m)] = r # [Suc r..<Suc (r + m)]"
    by (simp add: upt_conv_Cons del: upt_Suc)
  show ?case
    using step by (simp add: range_eq del: upt_Suc)
qed

lemma six_empty_attempts:
  assumes "\<forall>k<6. \<exists>chunks. t k = Stream chunks None \<and>
             (\<forall>c\<in>set chunks. chunk_content c = None \<or> chunk_content c = Some [])"
  shows "chat t p =
     (Inr failure_message,
      [Request, LogRetry 1, Sleep (13 / 10),
       Request, LogRetry 2, Sleep (13 / 10),
       Request, LogRetry 3, Sleep (13 / 10),
       Request, LogRetry 4, Sleep (13 / 10),
       Request, LogRetry 5, Sleep (13 / 10),
       Request, LogRetry 6, Sleep (13 / 10), LogExhausted])"
proof -
  have empty: "chat_stream (t k) = ([], None)" if "k < 6" for k
  proof -
    from assms that obtain chunks where "t k = Stream chunks None"
      and "\<forall>c\<in>set chunks. chunk_content c = None \<or> chunk_content c = Some []"
      by blast
    then show ?thesis
      by (simp add: stream_chunks_Nil)
  qed
  have run: "chat_loop t 0 [] 0 [] =
      chat_loop t 5 [] 5 (concat (map (\<lambda>j. [Request, LogRetry (Suc j), Sleep (13 / 10)]) [0..<5]))"
    using chat_loop_empty_run [where t = t and n = 0 and m = 5 and r = 0 and tr = "[]"] empty
    by simp
  have last: "chat_loop t 5 [] 5 tr =
      (Inr (Return failure_message), tr @ [Request, LogRetry 6, Sleep (13 / 10), LogExhausted])"
    for tr
    using chat_loop_exhaust [where t = t and n = 5 and ws = "[]" and ret = "[]" and retry = 5]
      empty [of 5] by simp
  have upt5: "[0..<5] = [0, 1, 2, 3, 4::nat]"
    by (simp add: eval_nat_numeral)
  show ?thesis
    by (simp add: chat_def run last upt5)
qed

text \<open>
  A stream that delivers only an empty fragment and then fails: \<^verbatim>\<open>chat\<close> raises
  after this one request, without a retry and without the failure message.
\<close>

theorem empty_stream_error_not_retried:
  "stream_chunks [text_chunk []] = [] \<and>
   chat (scripted [Stream [text_chunk []] (Some APITimeoutError)]) False =
     (Inl APITimeoutError, [Request])"
proof -
  have "chat_loop (scripted [Stream [text_chunk []] (Some APITimeoutError)]) 0 [] 0 [] =
      (Inl APITimeoutError, [] @ [Request])"
    by (rule chat_loop_raise [where ws = "[]"]) (simp add: scripted_def text_chunk_def)
  then have "chat (scripted [Stream [text_chunk []] (Some APITimeoutError)]) False =
      (Inl APITimeoutError, [Request])"
    by (simp add: chat_def)
  moreover have "stream_chunks [text_chunk []] = []"
    by (simp add: text_chunk_def)
  ultimately show ?thesis
    by simp
qed

text \<open>
  Claim C2, as the code has it. When each of the first six streaming requests closes
  without an error and delivers no chunk with a non-empty text (no chunks, chunks without
  content, or chunks whose content is the empty string, in any mixture), \<^verbatim>\<open>chat\<close>
  makes exactly six requests, logs and sleeps 1.3 after each of them, logs the exhaustion
  and returns the fixed failure message. The result does not depend on which kind of
  empty stream each attempt was. The sixth sleep comes after the last attempt, before the
  return.
\<close>

theorem chat_exhausts_after_six_attempts:
  assumes "\<forall>k<6. \<exists>chunks. t k = Stream chunks None \<and>
             (\<forall>c\<in>set chunks. chunk_content c = None \<or> chunk_content c = Some [])"
  shows "chat t p =
     (Inr failure_message,
      [Request, LogRetry 1, Sleep (13 / 10),
       Request, LogRetry 2, Sleep (13 / 10),
       Request, LogRetry 3, Sleep (13 / 10),
       Request, LogRetry 4, Sleep (13 / 10),
       Request, LogRetry 5, Sleep (13 / 10),
       Request, LogRetry 6, Sleep (13 / 10), LogExhausted])"
  using assms by (rule six_empty_attempts)

theorem chat_exhausts_after_six_attempts_witness:
  "chat (scripted [Stream [] None, Stream [text_chunk []] None, Stream [Chunk None] None,
                   Stream [Chunk (Some [])] None, Stream [Chunk (Some [Choice None])] None,
                   Stream [text_chunk [], Chunk (Some [Choice (Some (Delta None))])] None,
                   Stream [text_chunk ''too late''] None]) False =
     (Inr failure_message,
      [Request, LogRetry 1, Sleep (13 / 10),
       Request, LogRetry 2, Sleep (13 / 10),
       Request, LogRetry 3, Sleep (13 / 10),
       Request, LogRetry 4, Sleep (13 / 10),
       Request, LogRetry 5, Sleep (13 / 10),
       Request, LogRetry 6, Sleep (13 / 10), LogExhausted])"
proof -
  have "\<forall>k<6. \<exists>chunks.
      scripted [Stream [] None, Stream [text_chunk []] None, Stream [Chunk None] None,
                Stream [Chunk (Some [])] None, Stream [Chunk (Some [Choice None])] None,
                Stream [text_chunk [], Chunk (Some [Choice (Some (Delta None))])] None,
                Stream [text_chunk ''too late''] None] k = Stream chunks None \<and>
      (\<forall>c\<in>set chunks. chunk_content c = None \<or> chunk_content c = Some [])"
    by (simp add: scripted_def text_chunk_def less_Suc_eq eval_nat_numeral)
  then show ?thesis
    by (rule chat_exhausts_after_six_attempts)
qed

subsection \<open>Errors of the transport\<close>

text \<open>
  A request that raises is not an empty response for \<^verbatim>\<open>chat\<close>: with a transport whose
  first request raises, the exception leaves \<^verbatim>\<open>chat\<close> after that one request, whereas
  an empty stream leads to the failure message.
\<close>

theorem transport_error_not_degraded:
  "fst (chat (scripted [CreateRaises APIConnectionError]) False) = Inl APIConnectionError \<and>
   snd (chat (scripted [CreateRaises APIConnectionError]) False) = [Request] \<and>
   fst (chat (scripted [Stream [] None]) False) = Inr failure_message"
proof -
  have a: "chat (scripted [CreateRaises APIConnectionError]) False = (Inl APIConnectionError, [Request])"
    by (simp add: chat_def scripted_def
        chat_loop_raise [where t = "scripted [CreateRaises APIConnectionError]" and n = 0 and ws = "[]"])
  have "\<forall>k<6. \<exists>chunks. scripted [Stream [] None] k = Stream chunks None \<and>
      (\<forall>c\<in>set chunks. chunk_content c = None \<or> chunk_content c = Some [])"
    by (simp add: scripted_def)
  then have b: "fst (chat (scripted [Stream [] None]) False) = Inr failure_message"
    by (simp add: six_empty_attempts)
  show ?thesis using a b by simp
qed

text \<open>
  Claim C3, as the code has it. \<^verbatim>\<open>chat\<close> has no exception handler. When the attempts
  before attempt \<open>k\<close> (at most five) were empty streams that closed normally and attempt
  \<open>k\<close> raises, at the creation of the request or while the stream is read, that error
  leaves \<^verbatim>\<open>chat\<close>: the earlier attempts were retried as usual, and after the failing
  request nothing more is done, no retry and no failure message.
\<close>

theorem chat_propagates_transport_error:
  assumes "k \<le> 5"
    and "\<forall>j<k. \<exists>chunks. t j = Stream chunks None \<and>
           (\<forall>c\<in>set chunks. chunk_content c = None \<or> chunk_content c = Some [])"
    and "t k = CreateRaises e \<or> (\<exists>chunks. t k = Stream chunks (Some e))"
  shows "chat t p =
     (Inl e, concat (map (\<lambda>j. [Request, LogRetry (Suc j), Sleep (13 / 10)]) [0..<k]) @ [Request])"
proof -
  have empty: "chat_stream (t j) = ([], None)" if "j < k" for j
  proof -
    from assms(2) that obtain chunks where "t j = Stream chunks None"
      and "\<forall>c\<in>set chunks. chunk_content c = None \<or> chunk_content c = Some []"
      by blast
    then show ?thesis
      by (simp add: stream_chunks_Nil)
  qed
  have run: "chat_loop t 0 [] 0 [] =
      chat_loop t k [] k (concat (map (\<lambda>j. [Request, LogRetry (Suc j), Sleep (13 / 10)]) [0..<k]))"
    using chat_loop_empty_run [where t = t and n = 0 and m = k and r = 0 and tr = "[]"]
      empty assms(1) by simp
  from assms(3) obtain ws where "chat_stream (t k) = (ws, Some e)"
    by auto
  then have "chat_loop t k [] k tr = (Inl e, tr @ [Request])" for tr
    by (rule chat_loop_raise)
  then show ?thesis
    by (simp add: chat_def run)
qed

theorem chat_propagates_transport_error_witness:
  "chat (scripted [Stream [text_chunk []] None, Stream [text_chunk ''par''] (Some APITimeoutError)]) True
     = (Inl APITimeoutError, [Request, LogRetry 1, Sleep (13 / 10), Request])"
  using chat_propagates_transport_error
    [of 1 "scripted [Stream [text_chunk []] None, Stream [text_chunk ''par''] (Some APITimeoutError)]"
        APITimeoutError True]
  by (simp add: scripted_def text_chunk_def)

subsection \<open>The result is never empty\<close>

lemma failure_message_nonempty: "failure_message \<noteq> []"
  by (simp add: failure_message_def)

lemma chat_loop_exits:
  "chat_loop t n ret retry tr = (Inr x, tr') \<Longrightarrow> ret = [] \<Longrightarrow>
   x = Return failure_message \<or>
   (\<exists>k chunks. n \<le> k \<and> k \<le> n + (5 - retry) \<and> t k = Stream chunks None \<and>
      stream_chunks chunks \<noteq> [] \<and> x = Break (concat (stream_chunks chunks)))"
proof (induction t n ret retry tr rule: chat_loop.induct)
  case (1 t n ret retry tr)
  obtain ws cl where cs: "chat_stream (t n) = (ws, cl)"
    by (cases "chat_stream (t n)")
  show ?case
  proof (cases cl)
    case (Some e)
    with cs "1.prems"(1) show ?thesis
      by (simp add: chat_loop_raise [where t = t and n = n and ws = ws])
  next
    case None
    note cs' = cs [unfolded None]
    show ?thesis
    proof (cases "concat ws = []")
      case False
      then have "chat_loop t n ret retry tr = (Inr (Break (ret @ concat ws)), tr @ [Request])"
        using chat_loop_break [where t = t and n = n, OF cs'] by simp
      with "1.prems" have x: "x = Break (concat ws)"
        by simp
      from cs' obtain chunks where tn: "t n = Stream chunks None" and ws: "ws = stream_chunks chunks"
        by (cases "t n") auto
      from False ws have "stream_chunks chunks \<noteq> []"
        by auto
      with x tn ws show ?thesis
        by auto
    next
      case True
      then have empty: "ret @ concat ws = []"
        using "1.prems"(2) by simp
      show ?thesis
      proof (cases "retry < 5")
        case False
        then have "chat_loop t n ret retry tr =
            (Inr (Return failure_message),
             tr @ [Request, LogRetry (Suc retry), Sleep (13 / 10), LogExhausted])"
          using chat_loop_exhaust [where t = t and n = n, OF cs' empty] by simp
        with "1.prems"(1) show ?thesis
          by simp
      next
        case less: True
        have fold: "foldl (@) ret ws = []"
          using empty by (simp only: foldl_append_concat)
        have "chat_loop t n ret retry tr =
            chat_loop t (Suc n) [] (Suc retry) (tr @ [Request, LogRetry (Suc retry), Sleep (13 / 10)])"
          using chat_loop_retry [where t = t and n = n, OF cs' empty less] .
        with "1.prems"(1) have rec:
          "chat_loop t (n + 1) (foldl (@) ret ws) (retry + 1)
             (tr @ [Request, LogRetry (retry + 1), Sleep (13 / 10)]) = (Inr x, tr')"
          by (simp add: fold)
        have "x = Return failure_message \<or>
          (\<exists>k chunks. n + 1 \<le> k \<and> k \<le> n + 1 + (5 - (retry + 1)) \<and> t k = Stream chunks None \<and>
             stream_chunks chunks \<noteq> [] \<and> x = Break (concat (stream_chunks chunks)))"
          using "1.IH" [OF cs' [symmetric] refl _ _ rec fold] fold less by simp
        then show ?thesis
        proof
          assume "x = Return failure_message"
          then show ?thesis ..
        next
          assume "\<exists>k chunks. n + 1 \<le> k \<and> k \<le> n + 1 + (5 - (retry + 1)) \<and> t k = Stream chunks None \<and>
             stream_chunks chunks \<noteq> [] \<and> x = Break (concat (stream_chunks chunks))"
          then obtain k chunks where "n + 1 \<le> k" "k \<le> n + 1 + (5 - (retry + 1))"
            "t k = Stream chunks None" "stream_chunks chunks \<noteq> []"
            "x = Break (concat (stream_chunks chunks))"
            by blast
          moreover from this less have "n \<le> k" "k \<le> n + (5 - retry)"
            by simp_all
          ultimately show ?thesis
            by blast
        qed
      qed
    qed
  qed
qed

text \<open>
  Claim C10. For every transport and both values of \<open>p\<close>, \<^verbatim>\<open>chat\<close> never returns
  the empty string. A string it returns is the failure message, or the non-empty
  concatenation of the non-empty texts of one of the first six streams, which closed
  normally. (When a request raises, no string is returned at all.)
\<close>

theorem chat_result_never_empty:
  "fst (chat t p) \<noteq> Inr [] \<and>
   (\<forall>s. fst (chat t p) = Inr s \<longrightarrow>
      s = failure_message \<or>
      (\<exists>k\<le>5. \<exists>chunks. t k = Stream chunks None \<and> s \<noteq> [] \<and>
         s = concat (filter (\<lambda>w. w \<noteq> []) (List.map_filter chunk_content chunks))))"
proof -
  have main: "s = failure_message \<or>
      (\<exists>k\<le>5. \<exists>chunks. t k = Stream chunks None \<and> s \<noteq> [] \<and>
         s = concat (filter (\<lambda>w. w \<noteq> []) (List.map_filter chunk_content chunks)))"
    if "fst (chat t p) = Inr s" for s
  proof -
    obtain r tr where loop: "chat_loop t 0 [] 0 [] = (r, tr)"
      by (cases "chat_loop t 0 [] 0 []")
    from that loop obtain x where r: "r = Inr x" and sx: "x = Return s \<or> x = Break s"
      by (cases r; cases "projr r") (auto simp: chat_def split: loop_exit.splits)
    from chat_loop_exits [OF loop [unfolded r] refl]
    consider "x = Return failure_message"
      | k chunks where "k \<le> 5" "t k = Stream chunks None" "stream_chunks chunks \<noteq> []"
          "x = Break (concat (stream_chunks chunks))"
      by auto
    then show ?thesis
    proof cases
      case 1
      with sx show ?thesis by simp
    next
      case 2
      with sx have s: "s = concat (stream_chunks chunks)"
        by simp
      from 2(3) have "concat (stream_chunks chunks) \<noteq> []"
        using concat_stream_chunks_Nil by blast
      with s 2(1,2) show ?thesis
        by (auto simp: stream_chunks_filter)
    qed
  qed
  have "fst (chat t p) \<noteq> Inr []"
    using main [of "[]"] failure_message_nonempty by auto
  with main show ?thesis
    by blast
qed


theorem chat_result_never_empty_witness:
  "fst (chat (scripted [Stream [text_chunk ''ok''] None]) False) = Inr ''ok'' \<and>
   fst (chat (scripted [Stream [text_chunk ''ok''] None]) False) \<noteq> Inr [] \<and>
   (\<exists>k\<le>5. \<exists>chunks. scripted [Stream [text_chunk ''ok''] None] k = Stream chunks None \<and>
      ''ok'' = concat (filter (\<lambda>w. w \<noteq> []) (List.map_filter chunk_content chunks)))"
proof -
  have ev: "fst (chat (scripted [Stream [text_chunk ''ok''] None]) False) = Inr ''ok''"
    by (simp add: chat_def chat_loop.simps scripted_def text_chunk_def)
  have "''ok'' \<noteq> failure_message"
    by (simp add: failure_message_def)
  with ev chat_result_never_empty [of "scripted [Stream [text_chunk ''ok''] None]" False]
  show ?thesis
    by blast
qed

section \<open>Properties of the converter\<close>

subsection \<open>Strings\<close>

lemma startswith_Nil: "startswith s [] = True"
  by (simp add: startswith_def)

lemma startswith_Cons:
  "startswith s (c # p) = (case s of [] \<Rightarrow> False | d # s' \<Rightarrow> d = c \<and> startswith s' p)"
  by (cases s) (auto simp: startswith_def)

lemma startswith_iff: "startswith s p \<longleftrightarrow> (\<exists>r. s = p @ r)"
  by (metis append_eq_conv_conj startswith_def)

lemma rstrip_idem: "rstrip (rstrip s) = rstrip s"
proof -
  have "dropWhile isspace (dropWhile isspace xs) = dropWhile isspace xs" for xs
    by (simp add: dropWhile_idem)
  then show ?thesis
    by (simp add: rstrip_def)
qed

lemma strip_rstrip: "strip (rstrip s) = lstrip (rstrip s)"
  by (simp add: strip_def rstrip_idem)

lemma lstrip_no_space: "s \<noteq> [] \<Longrightarrow> \<not> isspace (hd s) \<Longrightarrow> lstrip s = s"
  by (cases s) (simp_all add: lstrip_def)

lemma rstrip_last: "rstrip s \<noteq> [] \<Longrightarrow> \<not> isspace (last (rstrip s))"
proof -
  assume ne: "rstrip s \<noteq> []"
  then have "dropWhile isspace (rev s) \<noteq> []"
    by (simp add: rstrip_def)
  then have "\<not> isspace (hd (dropWhile isspace (rev s)))"
    by (rule hd_dropWhile)
  moreover have "last (rstrip s) = hd (dropWhile isspace (rev s))"
    using \<open>dropWhile isspace (rev s) \<noteq> []\<close> by (simp add: rstrip_def last_rev)
  ultimately show ?thesis
    by simp
qed

subsection \<open>The output path\<close>

text \<open>
  Where \<^verbatim>\<open>.md\<close> occurs in the file name only as its extension, the extension alone is
  replaced.
\<close>

lemma replace_trailing_extension:
  assumes "\<forall>i<length stem. \<not> startswith (drop i (stem @ ''.md'')) ''.md''"
  shows "replace (stem @ ''.md'') ''.md'' ''.docx'' = stem @ ''.docx''"
  using assms
proof (induction stem)
  case Nil
  show ?case by (simp add: startswith_def)
next
  case (Cons c stem)
  from Cons.prems have first: "\<not> startswith (c # stem @ ''.md'') ''.md''"
    by force
  from Cons.prems have "\<forall>i<length stem. \<not> startswith (drop i (stem @ ''.md'')) ''.md''"
    by force
  then have "replace (stem @ ''.md'') ''.md'' ''.docx'' = stem @ ''.docx''"
    by (rule Cons.IH)
  with first show ?case
    by simp
qed

text \<open>
  Claim C4, at an input where the code departs from it. \<^verbatim>\<open>str.replace\<close> rewrites every
  occurrence of \<^verbatim>\<open>.md\<close> in the file name, not only the extension: the document for
  \<^verbatim>\<open>guide.md.old.md\<close> is saved as \<^verbatim>\<open>guide.docx.old.docx\<close>, where replacing the
  trailing extension alone would give \<^verbatim>\<open>guide.md.old.docx\<close>.
\<close>

theorem docx_path_replaces_every_occurrence:
  "convert_markdown_to_docx ''docs/guides'' [(''guide.md.old.md'', [])] =
     (None,
      [PrintLine ''Converting guide.md.old.md to DOCX...'',
       Save ''docs/guides/guide.docx.old.docx'' [],
       PrintLine ''Saved docs/guides/guide.docx.old.docx''])"
  by (simp add: convert_markdown_to_docx_def endswith_def join_def startswith_def Let_def)

subsection \<open>Calls of the document library\<close>

lemma add_paragraph_text:
  "t \<noteq> [] \<Longrightarrow> \<forall>c\<in>set t. xml_char c \<Longrightarrow> add_paragraph t st = Inr (text_par st t)"
  by (simp add: add_paragraph_def)

lemma add_heading_text:
  "t \<noteq> [] \<Longrightarrow> \<forall>c\<in>set t. xml_char c \<Longrightarrow> 1 \<le> n \<Longrightarrow> n \<le> 4 \<Longrightarrow>
   add_heading t n = Inr (text_par (Heading n) t)"
  by (simp add: add_heading_def add_paragraph_text)

lemma appended_Inr: "appended b doc (Inr p) = Inr (b, doc @ [p])"
  by (simp add: appended_def)

lemma line_loop_step:
  "process_line b doc raw = Inr (b', doc') \<Longrightarrow> line_loop b doc (raw # rest) = line_loop b' doc' rest"
  by simp

lemma convert_single:
  "endswith f ''.md'' \<Longrightarrow> line_loop False [] ls = Inr (b, doc) \<Longrightarrow>
   convert_markdown_to_docx d [(f, ls)] = converted d f doc"
  by (simp add: convert_markdown_to_docx_def Let_def)

subsection \<open>Lines inside a code block\<close>

text \<open>
  Claim C5, at an input where the code departs from it. For an empty line inside a code
  block \<^verbatim>\<open>add_paragraph\<close> creates a paragraph without a run, so \<^verbatim>\<open>p.runs[0]\<close> on
  line 32 raises \<^verbatim>\<open>IndexError\<close>: the run ends there and no document is saved.
\<close>

theorem empty_code_line_raises:
  "convert_markdown_to_docx ''docs/guides''
       [(''guide.md'', [''```'' @ [CHR 0x0A], [CHR 0x0A], ''```'' @ [CHR 0x0A]])] =
     (Some IndexError, [PrintLine ''Converting guide.md to DOCX...''])"
  by (simp add: convert_markdown_to_docx_def endswith_def process_line_def rstrip_def
      isspace_def startswith_def add_paragraph_def index_def Let_def)

text \<open>
  Every other line inside a code block, that is every line that is not empty once its
  trailing whitespace is stripped, becomes one paragraph of code, provided the library
  accepts its characters.
\<close>

lemma process_line_code:
  assumes "\<not> startswith (rstrip raw) ''```''" and "rstrip raw \<noteq> []"
    and "\<forall>c\<in>set (rstrip raw). xml_char c"
  shows "process_line True doc raw =
     Inr (True, doc @ [code_par (rstrip raw)])"
  using assms by (simp add: process_line_def add_paragraph_def index_def Let_def)


subsection \<open>Headings\<close>

lemma interval_1_4: "{1..4} = {1, 2, 3, 4::nat}"
  by auto

lemma isspace_space: "isspace CHR '' ''"
  by (simp add: isspace_def)

lemma rstrip_not_ending_in_space: "rstrip raw \<noteq> p @ '' ''"
proof
  assume eq: "rstrip raw = p @ '' ''"
  then have "rstrip raw \<noteq> []" by simp
  then have "\<not> isspace (last (rstrip raw))"
    by (rule rstrip_last)
  with eq show False
    by (simp add: isspace_space)
qed

lemma heading_line:
  assumes "rstrip raw = replicate n CHR ''#'' @ '' '' @ t" and "1 \<le> n" and "n \<le> 4"
    and "\<forall>c\<in>set t. xml_char c"
  shows "process_line False doc raw = Inr (False, doc @ [text_par (Heading n) t])"
proof -
  have t: "t \<noteq> []"
    using rstrip_not_ending_in_space [of raw "replicate n CHR ''#''"] assms(1) by auto
  have h: "add_heading t k = Inr (text_par (Heading k) t)" if "1 \<le> k" "k \<le> 4" for k
    using t assms(4) that by (rule add_heading_text)
  from assms(2,3) consider "n = 1" | "n = 2" | "n = 3" | "n = 4"
    by linarith
  then show ?thesis
  proof cases
    case 1
    with assms(1) have "rstrip raw = ''# '' @ t" by simp
    then show ?thesis
      using h [of 1]
      by (simp add: 1 process_line_def Let_def startswith_Cons startswith_Nil appended_Inr)
  next
    case 2
    with assms(1) have "rstrip raw = ''## '' @ t" by (simp add: numeral_2_eq_2)
    then show ?thesis
      using h [of 2]
      by (simp add: 2 process_line_def Let_def startswith_Cons startswith_Nil appended_Inr)
  next
    case 3
    with assms(1) have "rstrip raw = ''### '' @ t" by (simp add: numeral_3_eq_3)
    then show ?thesis
      using h [of 3]
      by (simp add: 3 process_line_def Let_def startswith_Cons startswith_Nil appended_Inr)
  next
    case 4
    with assms(1) have "rstrip raw = ''#### '' @ t" by (simp add: eval_nat_numeral)
    then show ?thesis
      using h [of 4]
      by (simp add: 4 process_line_def Let_def startswith_Cons startswith_Nil appended_Inr)
  qed
qed

lemma heading_only_from_prefix:
  assumes "process_line False doc raw = Inr (b, doc @ [p])" and "style p = Heading m"
  shows "1 \<le> m \<and> m \<le> 4 \<and> startswith (rstrip raw) (replicate m CHR ''#'' @ '' '')"
  using assms
  by (auto simp: process_line_def Let_def add_heading_def add_paragraph_def index_def
      appended_def numeral_2_eq_2 numeral_3_eq_3 eval_nat_numeral
      split: if_splits sum.splits)

lemma hash_line_not_listed:
  assumes "rstrip raw = CHR ''#'' # r"
  shows "\<not> startswith (rstrip raw) ''```''"
    and "strip (rstrip raw) = rstrip raw"
    and "\<not> startswith (rstrip raw) ''- ''" and "\<not> startswith (rstrip raw) ''* ''"
    and "\<not> re_match_numbered (rstrip raw)"
proof -
  show "\<not> startswith (rstrip raw) ''```''" "\<not> startswith (rstrip raw) ''- ''"
    "\<not> startswith (rstrip raw) ''* ''"
    by (simp_all add: assms startswith_Cons)
  show "strip (rstrip raw) = rstrip raw"
    unfolding strip_rstrip by (rule lstrip_no_space) (simp_all add: assms isspace_def)
  show "\<not> re_match_numbered (rstrip raw)"
    by (simp add: assms re_match_numbered_def isdigit_def)
qed

lemma unrecognised_hash_line:
  assumes "startswith (rstrip raw) ''#''"
    and "\<forall>k\<in>{1..4}. \<not> startswith (rstrip raw) (replicate k CHR ''#'' @ '' '')"
    and "\<forall>c\<in>set (rstrip raw). xml_char c"
  shows "process_line False doc raw = Inr (False, doc @ [text_par Normal (rstrip raw)])"
proof -
  from assms(1) obtain r where L: "rstrip raw = CHR ''#'' # r"
    by (auto simp: startswith_iff)
  have no: "\<not> startswith (rstrip raw) ''# ''" "\<not> startswith (rstrip raw) ''## ''"
    "\<not> startswith (rstrip raw) ''### ''" "\<not> startswith (rstrip raw) ''#### ''"
    using assms(2) [rule_format, of 1] assms(2) [rule_format, of 2]
      assms(2) [rule_format, of 3] assms(2) [rule_format, of 4]
    by (simp_all add: eval_nat_numeral)
  have ne: "rstrip raw \<noteq> []"
    using L by simp
  show ?thesis
    using no ne hash_line_not_listed [OF L] assms(3)
    by (simp add: process_line_def Let_def add_paragraph_text appended_Inr)
qed


subsection \<open>Numbered lists\<close>












subsection \<open>Fences and the state of the converter\<close>

lemma fence_toggles:
  "startswith (rstrip raw) ''```'' \<Longrightarrow> process_line b doc raw = Inr (\<not> b, doc)"
  by (simp add: process_line_def)

lemma no_fence_keeps_state:
  "\<not> startswith (rstrip raw) ''```'' \<Longrightarrow> process_line b doc raw = Inr (b', doc') \<Longrightarrow> b' = b"
  by (auto simp: process_line_def Let_def appended_def split: if_splits sum.splits)

lemma file_loop_ignores_state:
  "file_loop source_dir entries v out = file_loop source_dir entries None out"
proof (induction entries arbitrary: out)
  case Nil
  show ?case by simp
next
  case (Cons entry entries)
  obtain filename lines where entry: "entry = (filename, lines)"
    by (cases entry)
  show ?case
  proof (cases "endswith filename ''.md''")
    case True
    then show ?thesis
      by (simp add: entry)
  next
    case False
    with Cons.IH show ?thesis
      by (simp add: entry)
  qed
qed

lemma code_block_run:
  assumes "\<forall>l\<in>set ls. \<not> startswith (rstrip l) ''```'' \<and> rstrip l \<noteq> [] \<and>
             (\<forall>c\<in>set (rstrip l). xml_char c)"
  shows "line_loop True doc (ls @ rest) =
     line_loop True (doc @ map (\<lambda>l. code_par (rstrip l)) ls) rest"
  using assms
proof (induction ls arbitrary: doc)
  case Nil
  show ?case by simp
next
  case (Cons l ls)
  then have "process_line True doc l = Inr (True, doc @ [code_par (rstrip l)])"
    by (simp add: process_line_code)
  with Cons show ?case
    by simp
qed

lemma documents_append: "documents (a @ b) = documents a @ documents b"
  by (induction a rule: documents.induct) simp_all

text \<open>
  The state is also toggled by a line that starts with three backticks and goes on with
  other text, such as a fence with a language tag.
\<close>

theorem fence_with_info_string_toggles:
  "\<not> backticks_only ''```python'' \<and> process_line False [] ''```python'' = Inr (True, [])"
  by (simp add: backticks_only_def process_line_def rstrip_def isspace_def startswith_def)

text \<open>
  Claim C6, as the code has it. The flag is toggled exactly by the lines that start with
  three backticks once their trailing whitespace is stripped: such a line inverts the
  flag and adds nothing to the document, and any other line that is processed leaves
  the flag as it was. Whatever value the flag had after an earlier file, the document
  saved for a Markdown file is the one that the line loop builds from the state
  \<open>False\<close> (outside a code block) and an empty document. After a fence, the lines
  that follow are treated as code: as long as they are no fences, are not empty after
  stripping and hold only characters that the library accepts, each becomes a paragraph
  of code and the flag stays set, up to the end of the file when the fence is never
  closed.
\<close>

theorem fence_state_machine:
  "(startswith (rstrip raw) ''```'' \<longrightarrow> process_line b doc raw = Inr (\<not> b, doc)) \<and>
   (\<not> startswith (rstrip raw) ''```'' \<and> process_line b doc raw = Inr (b', doc') \<longrightarrow> b' = b) \<and>
   (endswith filename ''.md'' \<and> line_loop False [] lines = Inr (b'', saved) \<longrightarrow>
      documents (snd (file_loop source_dir [(filename, lines)] v out)) = documents out @ [saved]) \<and>
   (startswith (rstrip fence) ''```'' \<and>
    (\<forall>l\<in>set ls. \<not> startswith (rstrip l) ''```'' \<and> rstrip l \<noteq> [] \<and>
       (\<forall>c\<in>set (rstrip l). xml_char c)) \<longrightarrow>
      line_loop False doc (fence # ls @ rest) =
        line_loop True (doc @ map (\<lambda>l. code_par (rstrip l)) ls) rest \<and>
      line_loop False doc (fence # ls) = Inr (True, doc @ map (\<lambda>l. code_par (rstrip l)) ls))"
proof (intro conjI impI)
  show "process_line b doc raw = Inr (\<not> b, doc)" if "startswith (rstrip raw) ''```''"
    using that by (rule fence_toggles)
  show "b' = b" if "\<not> startswith (rstrip raw) ''```'' \<and> process_line b doc raw = Inr (b', doc')"
    using that no_fence_keeps_state by blast
  show "documents (snd (file_loop source_dir [(filename, lines)] v out)) = documents out @ [saved]"
    if "endswith filename ''.md'' \<and> line_loop False [] lines = Inr (b'', saved)"
    using that by (simp add: Let_def documents_append)
  assume h: "startswith (rstrip fence) ''```'' \<and>
    (\<forall>l\<in>set ls. \<not> startswith (rstrip l) ''```'' \<and> rstrip l \<noteq> [] \<and>
       (\<forall>c\<in>set (rstrip l). xml_char c))"
  then have run: "line_loop True doc (ls @ later) =
      line_loop True (doc @ map (\<lambda>l. code_par (rstrip l)) ls) later" for later
    by (simp add: code_block_run)
  from h have open_fence: "line_loop False doc (fence # later) = line_loop True doc later" for later
    by (simp add: fence_toggles)
  show "line_loop False doc (fence # ls @ rest) =
      line_loop True (doc @ map (\<lambda>l. code_par (rstrip l)) ls) rest"
    using open_fence [of "ls @ rest"] run [of rest] by simp
  show "line_loop False doc (fence # ls) = Inr (True, doc @ map (\<lambda>l. code_par (rstrip l)) ls)"
    using open_fence [of ls] run [of "[]"] by simp
qed

theorem fence_state_machine_witness:
  "process_line False [] ''```python'' = Inr (True, []) \<and>
   documents (snd (file_loop ''docs'' [(''a.md'', [''text''])] (Some True) [])) = [[text_par Normal ''text'']] \<and>
   line_loop False [] [''```sh'', ''# not a heading'', ''- x''] =
     Inr (True, [code_par ''# not a heading'', code_par ''- x'']) \<and>
   line_loop False [] [''```sh'', ''# not a heading'', ''- x'', ''```'', ''text''] =
     Inr (False, [code_par ''# not a heading'', code_par ''- x'', text_par Normal ''text'']) \<and>
   process_line False [] ''text'' = Inr (False, [text_par Normal ''text''])"
proof -
  have ev: "rstrip ''```python'' = ''```python''" "rstrip ''```'' = ''```''"
    "rstrip ''```sh'' = ''```sh''" "rstrip ''# not a heading'' = ''# not a heading''"
    "rstrip ''- x'' = ''- x''" "rstrip ''text'' = ''text''"
    by (simp_all add: rstrip_def isspace_def)
  have keep: "process_line False doc ''text'' = Inr (False, doc @ [text_par Normal ''text''])" for doc
    by (simp add: process_line_def Let_def ev startswith_def strip_def lstrip_def isspace_def
        re_match_numbered_def isdigit_def add_paragraph_def appended_def xml_char_def)
  then have plain: "line_loop False [] [''text''] = Inr (False, [text_par Normal ''text''])"
    by simp
  have close_fence: "process_line True doc ''```'' = Inr (False, doc)" for doc
    by (simp add: process_line_def ev startswith_def)
  show ?thesis
    using fence_state_machine [where raw = "''```python''" and b = False and doc = "[]"
        and b' = True and doc' = "[]"
        and filename = "''a.md''" and lines = "[''text'']" and b'' = False
        and saved = "[text_par Normal ''text'']" and source_dir = "''docs''" and v = "Some True"
        and out = "[]" and fence = "''```sh''" and ls = "[''# not a heading'', ''- x'']"
        and rest = "[''```'', ''text'']"]
      fence_state_machine [where raw = "''text''" and b = False and doc = "[]" and b' = False
        and doc' = "[text_par Normal ''text'']"
        and filename = "''a.md''" and lines = "[''text'']" and b'' = False
        and saved = "[text_par Normal ''text'']" and source_dir = "''docs''" and v = "Some True"
        and out = "[]" and fence = "''```sh''" and ls = "[''# not a heading'', ''- x'']"
        and rest = "[''```'', ''text'']"]
    by (simp add: ev plain keep close_fence startswith_def endswith_def xml_char_def)
qed

subsection \<open>The classification of headings\<close>

text \<open>
  A heading whose text holds a form feed: the library refuses the character, the
  exception ends the run and no document is saved.
\<close>

theorem heading_with_control_character_raises:
  "startswith (rstrip [CHR ''#'', CHR '' '', CHR ''a'', CHR 0x0C, CHR ''b'']) ''# '' \<and>
   convert_markdown_to_docx ''docs''
       [(''a.md'', [[CHR ''#'', CHR '' '', CHR ''a'', CHR 0x0C, CHR ''b'']])] =
     (Some ValueError, [PrintLine ''Converting a.md to DOCX...''])"
  by (simp add: convert_markdown_to_docx_def endswith_def Let_def process_line_def rstrip_def
      isspace_def startswith_def add_heading_def add_paragraph_def appended_def xml_char_def)

text \<open>
  Claim C7, as the code has it. Outside a code block, with \<open>rstrip raw\<close> the line after
  its trailing whitespace is stripped: a line that starts with \<open>n\<close> hash signs and a
  space, for \<open>n\<close> from 1 to 4, and whose remainder holds only characters that the library
  accepts, is emitted as a heading of level \<open>n\<close> whose text is that remainder: the loop
  goes on with the heading added to the document, and a file of this one line is saved
  as this one heading. A paragraph emitted with a heading style of level \<open>m\<close> only comes
  from such a line, with \<open>m\<close> from 1 to 4. A line that starts with a hash sign but with
  none of the four prefixes (five or more hash signs, or no space after them), and that
  holds only accepted characters, is emitted unchanged as a plain paragraph.
\<close>

theorem heading_classification:
  "(1 \<le> n \<and> n \<le> 4 \<and> startswith (rstrip raw) (replicate n CHR ''#'' @ '' '') \<and>
    (\<forall>c\<in>set (drop (n + 1) (rstrip raw)). xml_char c) \<longrightarrow>
      line_loop False doc (raw # rest) =
        line_loop False (doc @ [text_par (Heading n) (drop (n + 1) (rstrip raw))]) rest \<and>
      (endswith f ''.md'' \<longrightarrow>
         convert_markdown_to_docx d [(f, [raw])] =
           converted d f [text_par (Heading n) (drop (n + 1) (rstrip raw))])) \<and>
   (line_loop False doc [raw] = Inr (b, doc @ [p]) \<and> style p = Heading m \<longrightarrow>
      1 \<le> m \<and> m \<le> 4 \<and> startswith (rstrip raw) (replicate m CHR ''#'' @ '' '')) \<and>
   (startswith (rstrip raw) ''#'' \<and>
    (\<forall>k\<in>{1..4}. \<not> startswith (rstrip raw) (replicate k CHR ''#'' @ '' '')) \<and>
    (\<forall>c\<in>set (rstrip raw). xml_char c) \<longrightarrow>
      line_loop False doc (raw # rest) =
        line_loop False (doc @ [text_par Normal (rstrip raw)]) rest \<and>
      (endswith f ''.md'' \<longrightarrow>
         convert_markdown_to_docx d [(f, [raw])] = converted d f [text_par Normal (rstrip raw)]))"
proof (intro conjI impI)
  assume h: "1 \<le> n \<and> n \<le> 4 \<and> startswith (rstrip raw) (replicate n CHR ''#'' @ '' '') \<and>
    (\<forall>c\<in>set (drop (n + 1) (rstrip raw)). xml_char c)"
  then obtain t where t: "rstrip raw = replicate n CHR ''#'' @ '' '' @ t"
    by (auto simp: startswith_iff)
  then have d: "drop (n + 1) (rstrip raw) = t"
    by simp
  have step: "process_line False doc' raw =
      Inr (False, doc' @ [text_par (Heading n) (drop (n + 1) (rstrip raw))])" for doc'
    using heading_line [OF t] h d by simp
  show "line_loop False doc (raw # rest) =
      line_loop False (doc @ [text_par (Heading n) (drop (n + 1) (rstrip raw))]) rest"
    using step [of doc] by (rule line_loop_step)
  show "convert_markdown_to_docx d [(f, [raw])] =
      converted d f [text_par (Heading n) (drop (n + 1) (rstrip raw))]"
    if "endswith f ''.md''"
    using convert_single [OF that, where ls = "[raw]" and b = False and d = d] step [of "[]"]
    by simp
next
  assume "line_loop False doc [raw] = Inr (b, doc @ [p]) \<and> style p = Heading m"
  then have "process_line False doc raw = Inr (b, doc @ [p])" "style p = Heading m"
    by (auto split: sum.splits)
  then have "1 \<le> m \<and> m \<le> 4 \<and> startswith (rstrip raw) (replicate m CHR ''#'' @ '' '')"
    by (rule heading_only_from_prefix)
  then show "1 \<le> m" "m \<le> 4" "startswith (rstrip raw) (replicate m CHR ''#'' @ '' '')"
    by simp_all
next
  assume h: "startswith (rstrip raw) ''#'' \<and>
    (\<forall>k\<in>{1..4}. \<not> startswith (rstrip raw) (replicate k CHR ''#'' @ '' '')) \<and>
    (\<forall>c\<in>set (rstrip raw). xml_char c)"
  then have step: "process_line False doc' raw = Inr (False, doc' @ [text_par Normal (rstrip raw)])"
    for doc'
    using unrecognised_hash_line by blast
  show "line_loop False doc (raw # rest) =
      line_loop False (doc @ [text_par Normal (rstrip raw)]) rest"
    using step [of doc] by (rule line_loop_step)
  show "convert_markdown_to_docx d [(f, [raw])] = converted d f [text_par Normal (rstrip raw)]"
    if "endswith f ''.md''"
    using convert_single [OF that, where ls = "[raw]" and b = False and d = d] step [of "[]"]
    by simp
qed

theorem heading_classification_witness:
  "line_loop False [] [''## Title  ''] = Inr (False, [text_par (Heading 2) ''Title'']) \<and>
   convert_markdown_to_docx ''docs'' [(''a.md'', [''## Title  ''])] =
     converted ''docs'' ''a.md'' [text_par (Heading 2) ''Title''] \<and>
   convert_markdown_to_docx ''docs'' [(''a.md'', [''##### Deep''])] =
     converted ''docs'' ''a.md'' [text_par Normal ''##### Deep''] \<and>
   line_loop False [] [''#tag''] = Inr (False, [text_par Normal ''#tag''])"
proof -
  have ev: "rstrip ''## Title  '' = ''## Title''" "rstrip ''##### Deep'' = ''##### Deep''"
    "rstrip ''#tag'' = ''#tag''"
    by (simp_all add: rstrip_def isspace_def)
  have two: "replicate 2 CHR ''#'' = ''##''"
    by (simp add: numeral_2_eq_2)
  have md: "endswith ''a.md'' ''.md''"
    by (simp add: endswith_def)
  have a: "line_loop False [] [''## Title  ''] = Inr (False, [text_par (Heading 2) ''Title'']) \<and>
      convert_markdown_to_docx ''docs'' [(''a.md'', [''## Title  ''])] =
        converted ''docs'' ''a.md'' [text_par (Heading 2) ''Title'']"
    using heading_classification [where n = 2 and raw = "''## Title  ''" and doc = "[]"
        and rest = "[]" and f = "''a.md''" and d = "''docs''"
        and b = False and p = "text_par (Heading 2) ''Title''" and m = 2] md
    by (simp add: ev two startswith_def xml_char_def)
  have none: "\<forall>k\<in>{1..4}. \<not> startswith ''##### Deep'' (replicate k CHR ''#'' @ '' '')"
    "\<forall>k\<in>{1..4}. \<not> startswith ''#tag'' (replicate k CHR ''#'' @ '' '')"
    unfolding interval_1_4 by (simp_all add: startswith_def eval_nat_numeral)
  have c: "convert_markdown_to_docx ''docs'' [(''a.md'', [''##### Deep''])] =
      converted ''docs'' ''a.md'' [text_par Normal ''##### Deep'']"
    using heading_classification [where n = 2 and raw = "''##### Deep''" and doc = "[]"
        and rest = "[]" and f = "''a.md''" and d = "''docs''"
        and b = False and p = "text_par (Heading 2) ''Title''" and m = 2] none(1) md
    by (simp add: ev startswith_def xml_char_def)
  have d: "line_loop False [] [''#tag''] = Inr (False, [text_par Normal ''#tag''])"
    using heading_classification [where n = 2 and raw = "''#tag''" and doc = "[]"
        and rest = "[]" and f = "''a.md''" and d = "''docs''"
        and b = False and p = "text_par (Heading 2) ''Title''" and m = 2] none(2)
    by (simp add: ev startswith_def xml_char_def)
  from a c d show ?thesis
    by simp
qed

subsection \<open>The classification of numbered items\<close>




subsection \<open>Converting the same lines again\<close>

text \<open>
  Claim C9. The outcome of converting a Markdown file is determined by its lines. Two
  runs on files with the same lines, whatever the directories and the file names, end
  alike (both normally or both with the same exception) and save the same document; and
  a run that meets the same lines twice saves the same document twice. Nothing is
  carried over from one conversion to the next.
\<close>

theorem conversion_depends_on_lines_only:
  assumes "endswith f1 ''.md''" and "endswith f2 ''.md''"
  shows "fst (convert_markdown_to_docx d1 [(f1, ls)]) = fst (convert_markdown_to_docx d2 [(f2, ls)]) \<and>
    documents (snd (convert_markdown_to_docx d1 [(f1, ls)])) =
      documents (snd (convert_markdown_to_docx d2 [(f2, ls)])) \<and>
    documents (snd (convert_markdown_to_docx d1 [(f1, ls), (f2, ls)])) =
      documents (snd (convert_markdown_to_docx d1 [(f1, ls)])) @
      documents (snd (convert_markdown_to_docx d1 [(f1, ls)]))"
  using assms
  by (cases "line_loop False [] ls")
    (auto simp: convert_markdown_to_docx_def Let_def documents_append)

theorem conversion_depends_on_lines_only_witness:
  "documents (snd (convert_markdown_to_docx ''a'' [(''x.md'', [''# T'', ''```'', ''code'']), (''y.md'', [''# T'', ''```'', ''code''])])) =
     [[text_par (Heading 1) ''T'', code_par ''code''], [text_par (Heading 1) ''T'', code_par ''code'']] \<and>
   documents (snd (convert_markdown_to_docx ''b/'' [(''y.md'', [''# T'', ''```'', ''code''])])) =
     [[text_par (Heading 1) ''T'', code_par ''code'']]"
proof -
  have one: "documents (snd (convert_markdown_to_docx ''a'' [(''x.md'', [''# T'', ''```'', ''code''])])) =
      [[text_par (Heading 1) ''T'', code_par ''code'']]"
    by (simp add: convert_markdown_to_docx_def endswith_def Let_def process_line_def rstrip_def
        isspace_def startswith_def add_heading_def add_paragraph_def index_def appended_def
        xml_char_def)
  have md: "endswith ''x.md'' ''.md''" "endswith ''y.md'' ''.md''"
    by (simp_all add: endswith_def)
  from conversion_depends_on_lines_only [OF md, of "''a''" "[''# T'', ''```'', ''code'']" "''b/''"] one
  show ?thesis
    by simp
qed

end
